theory Spec2Isabelle
  imports Complex_Main "HOL-Library.Multiset" "HOL-Library.Log_Nat"
begin

unbundle bit_operations_syntax

section \<open>JavaScript values and helpers\<close>

text \<open>
  Notes, intervals, velocities and channels are JavaScript numbers that hold integers;
  they are modelled as \<open>int\<close>. Delays in milliseconds are doubles: a double is the
  rational it denotes, and every arithmetic operation rounds its exact result to the
  nearest double. An exception thrown by the source is a value \<open>Inl e\<close>.
\<close>

datatype js_error = TypeError | NotANumber

text \<open>Running a second call on the result of a first one, an exception ending both.\<close>

definition then_call :: "js_error + 'a \<Rightarrow> ('a \<Rightarrow> js_error + 'b) \<Rightarrow> js_error + 'b" where
  "then_call r f = (case r of Inl e \<Rightarrow> Inl e | Inr v \<Rightarrow> f v)"

text \<open>
  The remainder operator \<open>a % b\<close> truncates towards zero: the sign follows \<open>a\<close>.
  The divisor is 12 wherever the source uses it.
\<close>

definition js_rem :: "int \<Rightarrow> int \<Rightarrow> int" where
  "js_rem a b = sgn a * (\<bar>a\<bar> mod \<bar>b\<bar>)"

text \<open>
  A property read \<open>obj[key]\<close> on an object literal finds the literal's own properties
  and, failing that, the properties every object inherits from \<open>Object.prototype\<close>
  (all of them functions, or the prototype object itself for \<open>__proto__\<close>); any other key
  reads \<open>undefined\<close>. \<open>obj.hasOwnProperty(key)\<close> sees own properties only.
\<close>

datatype 'a js_prop = Own 'a | Inherited | Undefined

definition Object_prototype_keys :: "string list" where
  "Object_prototype_keys =
     [''constructor'', ''hasOwnProperty'', ''isPrototypeOf'', ''propertyIsEnumerable'',
      ''toLocaleString'', ''toString'', ''valueOf'', ''__proto__'',
      ''__defineGetter__'', ''__defineSetter__'', ''__lookupGetter__'', ''__lookupSetter__'']"

definition js_get :: "(string \<times> 'a) list \<Rightarrow> string \<Rightarrow> 'a js_prop" where
  "js_get obj k =
     (case map_of obj k of
        Some v \<Rightarrow> Own v
      | None \<Rightarrow> if k \<in> set Object_prototype_keys then Inherited else Undefined)"

definition hasOwnProperty :: "(string \<times> 'a) list \<Rightarrow> string \<Rightarrow> bool" where
  "hasOwnProperty obj k = (map_of obj k \<noteq> None)"

text \<open>
  A \<open>Set\<close> keeps its elements in insertion order: it is a duplicate-free list.
  \<open>add\<close> appends an absent element, \<open>delete\<close> removes one, \<open>new Set(xs)\<close> adds the
  elements of \<open>xs\<close> from left to right.
\<close>

definition set_add :: "'a list \<Rightarrow> 'a \<Rightarrow> 'a list" where
  "set_add s x = (if x \<in> set s then s else s @ [x])"

definition set_delete :: "'a list \<Rightarrow> 'a \<Rightarrow> 'a list" where
  "set_delete s x = filter (\<lambda>y. y \<noteq> x) s"

definition new_Set :: "'a list \<Rightarrow> 'a list" where
  "new_Set xs = foldl set_add [] xs"

text \<open>\<open>xs.slice(start, end)\<close>: a negative index counts from the end, both are clipped.\<close>

definition js_slice :: "'a list \<Rightarrow> int \<Rightarrow> int \<Rightarrow> 'a list" where
  "js_slice xs s e =
     (let n = int (length xs);
          s' = (if s < 0 then max (n + s) 0 else min s n);
          e' = (if e < 0 then max (n + e) 0 else min e n)
      in take (nat (e' - s')) (drop (nat s') xs))"

definition in_midi_range :: "int \<Rightarrow> bool" where
  "in_midi_range note = (note \<ge> 0 \<and> note \<le> 127)"

section \<open>Double arithmetic\<close>








section \<open>Data tables\<close>

definition CHORD_INTERVALS :: "(string \<times> int list) list" where
  "CHORD_INTERVALS =
     [(''Maj'', [0, 4, 7]),
      (''Min'', [0, 3, 7]),
      (''Sus'', [0, 5, 7]),
      (''Dim'', [0, 3, 6])]"

definition EXTENSION_INTERVALS :: "(string \<times> int) list" where
  "EXTENSION_INTERVALS = [(''6'', 9), (''m7'', 10), (''M7'', 11), (''9'', 14)]"

definition SCALE_DEGREES :: "(string \<times> int list) list" where
  "SCALE_DEGREES =
     [(''major'', [0, 2, 4, 5, 7, 9, 11]),
      (''natural_minor'', [0, 2, 3, 5, 7, 8, 10]),
      (''harmonic_minor'', [0, 2, 3, 5, 7, 8, 11]),
      (''dorian'', [0, 2, 3, 5, 7, 9, 10]),
      (''mixolydian'', [0, 2, 4, 5, 7, 9, 10]),
      (''pentatonic_major'', [0, 2, 4, 7, 9]),
      (''pentatonic_minor'', [0, 3, 5, 7, 10]),
      (''blues'', [0, 3, 5, 6, 7, 10])]"

definition CHANNEL_CHORD :: int where "CHANNEL_CHORD = 0"
definition CHANNEL_PERFORMANCE :: int where "CHANNEL_PERFORMANCE = 1"
definition CHANNEL_BASS :: int where "CHANNEL_BASS = 2"

section \<open>Chord generation\<close>

text \<open>
  \<open>generateChord(rootNote, chordType, extensions)\<close>. The spread
  \<open>[...CHORD_INTERVALS[chordType]]\<close> needs an iterable: it throws a TypeError when the
  property read gives \<open>undefined\<close> or an inherited, non-iterable value.
\<close>

definition push_extension :: "int list \<Rightarrow> string \<Rightarrow> int list" where
  "push_extension allIntervals ext =
     (if hasOwnProperty EXTENSION_INTERVALS ext then
        (case map_of EXTENSION_INTERVALS ext of
           Some interval \<Rightarrow> allIntervals @ [interval]
         | None \<Rightarrow> allIntervals)
      else allIntervals)"

definition generateChord :: "int \<Rightarrow> string \<Rightarrow> string list \<Rightarrow> js_error + int list" where
  "generateChord rootNote chordType extensions =
     (case js_get CHORD_INTERVALS chordType of
        Own baseIntervals \<Rightarrow>
          (let allIntervals = foldl push_extension baseIntervals extensions;
               uniqueIntervals = sort (new_Set allIntervals);
               midiNotes = map (\<lambda>interval. rootNote + interval) uniqueIntervals
           in Inr (filter in_midi_range midiNotes))
      | Inherited \<Rightarrow> Inl TypeError
      | Undefined \<Rightarrow> Inl TypeError)"

text \<open>
  What the specification asks of the chord notes: the union of the base intervals and the
  selected extension intervals, without duplicates and ascending, each added to the root,
  results outside 0..127 dropped.
\<close>

definition chordNotes_spec :: "int \<Rightarrow> int set \<Rightarrow> int list" where
  "chordNotes_spec rootNote intervals =
     filter (\<lambda>n. 0 \<le> n \<and> n \<le> 127) (map (\<lambda>i. rootNote + i) (sorted_list_of_set intervals))"

section \<open>Voicing\<close>

text \<open>
  \<open>applyVoicing(notes, position)\<close>. One pass of the loop moves the lowest note up an
  octave (\<open>shift\<close>, \<open>push\<close>) or the highest note down an octave (\<open>pop\<close>,
  \<open>unshift\<close>) and sorts again. The loop runs on a non-empty array only (the empty input
  returns at once and a pass keeps the length), so the empty case of a pass is never
  taken.
\<close>

definition voicing_step :: "int \<Rightarrow> int list \<Rightarrow> int list" where
  "voicing_step position result =
     (if position > 0 then
        (case result of [] \<Rightarrow> [] | lowest # rest \<Rightarrow> sort (rest @ [lowest + 12]))
      else if position < 0 then
        (if result = [] then [] else sort ((last result - 12) # butlast result))
      else result)"

primrec voicing_loop :: "nat \<Rightarrow> int \<Rightarrow> int list \<Rightarrow> int list" where
  "voicing_loop 0 position result = result"
| "voicing_loop (Suc steps) position result =
     voicing_loop steps position (voicing_step position result)"

definition applyVoicing :: "int list \<Rightarrow> int \<Rightarrow> int list" where
  "applyVoicing notes position =
     (if length notes = 0 then notes
      else (let result = sort notes;
                steps = nat \<bar>position\<bar>
            in filter in_midi_range (voicing_loop steps position result)))"

text \<open>
  The notes stay within 0..127 throughout one application: the sorted input and the array
  after every pass of the loop hold notes in range only.
\<close>

definition stays_in_range :: "int list \<Rightarrow> int \<Rightarrow> bool" where
  "stays_in_range notes position =
     list_all (\<lambda>k. list_all in_midi_range (voicing_loop k position (sort notes)))
       [0 ..< Suc (nat \<bar>position\<bar>)]"

definition pitch_class :: "int \<Rightarrow> int" where
  "pitch_class note = note mod 12"

text \<open>\<open>applyBassVoicing(rootNote, bassOctave)\<close>.\<close>

definition applyBassVoicing :: "int \<Rightarrow> int \<Rightarrow> int" where
  "applyBassVoicing rootNote bassOctave =
     (let bassNote = rootNote + (bassOctave * 12)
      in max 24 (min 60 bassNote))"

section \<open>Scale quantisation\<close>

text \<open>
  \<open>quantizeNoteToKey(midiNote, keyRoot, scaleType)\<close>. The guard \<open>!scaleDegrees\<close> lets
  every truthy value through; an inherited property is truthy and has no \<open>includes\<close>
  method, so the membership test throws a TypeError. The loop keeps the first degree of
  least circular distance (the comparison is strict). No entry of the table is empty; on
  an empty degree list the source would compute \<open>NaN\<close>, the value \<open>NotANumber\<close> here.
\<close>

definition circular_distance :: "int \<Rightarrow> int \<Rightarrow> int" where
  "circular_distance interval degree =
     min (min \<bar>interval - degree\<bar> \<bar>interval - degree + 12\<bar>) \<bar>interval - degree - 12\<bar>"

fun nearest_loop :: "int \<Rightarrow> int list \<Rightarrow> int \<times> int \<Rightarrow> int \<times> int" where
  "nearest_loop interval [] (nearestInterval, minDistance) = (nearestInterval, minDistance)"
| "nearest_loop interval (degree # degrees) (nearestInterval, minDistance) =
     (let distance = circular_distance interval degree
      in if distance < minDistance then nearest_loop interval degrees (degree, distance)
         else nearest_loop interval degrees (nearestInterval, minDistance))"

definition quantizeNoteToKey :: "int \<Rightarrow> int \<Rightarrow> string \<Rightarrow> js_error + int" where
  "quantizeNoteToKey midiNote keyRoot scaleType =
     (case js_get SCALE_DEGREES scaleType of
        Undefined \<Rightarrow> Inr midiNote
      | Inherited \<Rightarrow> Inl TypeError
      | Own scaleDegrees \<Rightarrow>
          (let octave = midiNote div 12;
               noteInOctave = js_rem midiNote 12;
               interval = js_rem ((noteInOctave - keyRoot) + 12) 12
           in if interval \<in> set scaleDegrees then Inr midiNote
              else (case scaleDegrees of
                      [] \<Rightarrow> Inl NotANumber
                    | first # _ \<Rightarrow>
                        (let nearestInterval = fst (nearest_loop interval scaleDegrees (first, 12));
                             quantizedNoteInOctave = js_rem (keyRoot + nearestInterval) 12;
                             quantizedNote = (octave * 12) + quantizedNoteInOctave;
                             quantizedNote' =
                               (if quantizedNoteInOctave < noteInOctave \<and>
                                   (noteInOctave - quantizedNoteInOctave) > 6
                                then quantizedNote + 12
                                else if quantizedNoteInOctave > noteInOctave \<and>
                                   (quantizedNoteInOctave - noteInOctave) > 6
                                then quantizedNote - 12
                                else quantizedNote)
                         in Inr (max 0 (min 127 quantizedNote'))))))"

definition supported_scales :: "string list" where
  "supported_scales = map fst SCALE_DEGREES"

section \<open>Strum\<close>





section \<open>Arpeggio patterns\<close>

text \<open>
  \<open>shuffleArray\<close>: the loop runs \<open>i\<close> from the last index down to 1 and swaps position
  \<open>i\<close> with \<open>j = floor(Math.random() * (i + 1))\<close>. The random source is the parameter
  \<open>rnd\<close>; \<open>rnd c\<close> is the value of the \<open>c\<close>-th call. \<open>Math.random()\<close> is below 1, so
  \<open>j \<le> i\<close>; a draw outside that range does not occur and leaves the array as it is.
\<close>

fun shuffle_loop :: "(nat \<Rightarrow> rat) \<Rightarrow> nat \<Rightarrow> nat \<Rightarrow> int list \<Rightarrow> int list" where
  "shuffle_loop rnd c 0 array = array"
| "shuffle_loop rnd c (Suc i') array =
     (let i = Suc i';
          j = nat \<lfloor>rnd c * of_nat (i + 1)\<rfloor>;
          array' = (if j \<le> i \<and> i < length array then array[i := array ! j, j := array ! i]
                    else array)
      in shuffle_loop rnd (Suc c) i' array')"

definition shuffleArray :: "(nat \<Rightarrow> rat) \<Rightarrow> int list \<Rightarrow> int list" where
  "shuffleArray rnd array = shuffle_loop rnd 0 (length array - 1) array"

definition applyArpPattern :: "(nat \<Rightarrow> rat) \<Rightarrow> int list \<Rightarrow> string \<Rightarrow> int list" where
  "applyArpPattern rnd notes pattern =
     (let sorted = sort notes in
      if pattern = ''up'' then sorted
      else if pattern = ''down'' then rev sorted
      else if pattern = ''upDown'' then
        (if length sorted \<le> 1 then sorted
         else sorted @ rev (js_slice sorted 1 (- 1)))
      else if pattern = ''downUp'' then
        (if length sorted \<le> 1 then sorted
         else (let reversed = rev sorted
               in reversed @ rev (js_slice reversed 1 (- 1))))
      else if pattern = ''random'' then shuffleArray rnd sorted
      else sorted)"

section \<open>Notions of the statements and proofs\<close>

text \<open>The intervals of the selected extensions: one for each extension of the table.\<close>

definition selected_intervals :: "string list \<Rightarrow> int set" where
  "selected_intervals extensions = set (List.map_filter (map_of EXTENSION_INTERVALS) extensions)"

definition pitch_classes :: "int list \<Rightarrow> int multiset" where
  "pitch_classes notes = image_mset pitch_class (mset notes)"

text \<open>
  Two notions for the proof of idempotence, used on the degree lists of the table only.
  \<open>quantize_offset\<close> is the quantised position counted from the start of the octave
  of the input, for a note at position \<open>noteInOctave\<close> of its octave: the position
  itself when it is in the scale, else the position of the nearest degree with the octave
  correction applied. \<open>offset_lands_in_scale\<close> says that this moves the note by at
  most one semitone, onto a pitch class of the scale.
\<close>

definition quantize_offset :: "int list \<Rightarrow> int \<Rightarrow> int \<Rightarrow> int" where
  "quantize_offset scaleDegrees noteInOctave keyRoot =
     (let interval = js_rem ((noteInOctave - keyRoot) + 12) 12
      in if interval \<in> set scaleDegrees then noteInOctave
         else (let nearestInterval =
                     fst (nearest_loop interval scaleDegrees (hd scaleDegrees, 12));
                   quantizedNoteInOctave = js_rem (keyRoot + nearestInterval) 12
               in if quantizedNoteInOctave < noteInOctave \<and>
                     (noteInOctave - quantizedNoteInOctave) > 6
                  then quantizedNoteInOctave + 12
                  else if quantizedNoteInOctave > noteInOctave \<and>
                     (quantizedNoteInOctave - noteInOctave) > 6
                  then quantizedNoteInOctave - 12
                  else quantizedNoteInOctave))"

definition offset_lands_in_scale :: "int list \<Rightarrow> int \<Rightarrow> int \<Rightarrow> bool" where
  "offset_lands_in_scale scaleDegrees keyRoot noteInOctave =
     (let d = quantize_offset scaleDegrees noteInOctave keyRoot - noteInOctave
      in - 1 \<le> d \<and> d \<le> 1 \<and>
         js_rem ((((noteInOctave + d) mod 12) - keyRoot) + 12) 12 \<in> set scaleDegrees)"




section \<open>MIDI output\<close>

text \<open>
  \<open>OrchardMIDI\<close>. The field \<open>midi_output\<close> is \<open>this.output\<close>: the selected output
  device, as the list of messages sent to it so far, and \<open>None\<close> while no device is
  selected (\<open>null\<close>). \<open>activeNotes\<close> is the \<open>Map\<close> from a channel to the \<open>Set\<close> of
  its sounding notes; the constructor creates the sets of the channels 0, 1 and 2. A
  message is the array handed to \<open>output.send\<close>. The bit operations of the source
  work on integers. Timers (\<open>pendingTimeouts\<close>, \<open>scheduleBatch\<close>) are left out.
\<close>

type_synonym midi_message = "int list"

record midi_state =
  midi_output :: "midi_message list option"
  activeNotes :: "int \<rightharpoonup> int list"

definition OrchardMIDI :: midi_state where
  "OrchardMIDI =
     \<lparr>midi_output = None,
      activeNotes = [0 \<mapsto> [], 1 \<mapsto> [], 2 \<mapsto> []]\<rparr>"

definition selectOutput :: "midi_state \<Rightarrow> midi_message list option \<Rightarrow> midi_state" where
  "selectOutput m device = m\<lparr>midi_output := device\<rparr>"

text \<open>
  \<open>noteOn(channel, note, velocity)\<close> and \<open>noteOff(channel, note)\<close> return at once
  without an output. \<open>this.activeNotes.get(channel)\<close> is \<open>undefined\<close> for a channel
  without a set, and the method call on it throws.
\<close>

definition noteOn :: "midi_state \<Rightarrow> int \<Rightarrow> int \<Rightarrow> int \<Rightarrow> js_error + midi_state" where
  "noteOn m chan n vel =
     (case midi_output m of
        None \<Rightarrow> Inr m
      | Some sent \<Rightarrow>
          (let status = 0x90 OR (chan AND 0x0F);
               sent' = sent @ [[status, n AND 0x7F, vel AND 0x7F]]
           in case activeNotes m chan of
                None \<Rightarrow> Inl TypeError
              | Some active \<Rightarrow>
                  Inr (m\<lparr>midi_output := Some sent',
                         activeNotes := (activeNotes m)(chan \<mapsto> set_add active n)\<rparr>)))"

definition noteOff :: "midi_state \<Rightarrow> int \<Rightarrow> int \<Rightarrow> js_error + midi_state" where
  "noteOff m chan n =
     (case midi_output m of
        None \<Rightarrow> Inr m
      | Some sent \<Rightarrow>
          (let status = 0x80 OR (chan AND 0x0F);
               sent' = sent @ [[status, n AND 0x7F, 0]]
           in case activeNotes m chan of
                None \<Rightarrow> Inl TypeError
              | Some active \<Rightarrow>
                  Inr (m\<lparr>midi_output := Some sent',
                         activeNotes := (activeNotes m)(chan \<mapsto> set_delete active n)\<rparr>)))"

text \<open>
  \<open>allNotesOff(channel)\<close>: \<open>active.forEach(note => this.noteOff(channel, note))\<close>.
  \<open>forEach\<close> walks the set in insertion order and visits an element only if it is still
  in the set when its turn comes; the callback deletes from the set it walks.
\<close>

definition still_active :: "midi_state \<Rightarrow> int \<Rightarrow> int \<Rightarrow> bool" where
  "still_active m chan n =
     (case activeNotes m chan of None \<Rightarrow> False | Some active \<Rightarrow> n \<in> set active)"

fun forEach_noteOff :: "midi_state \<Rightarrow> int \<Rightarrow> int list \<Rightarrow> js_error + midi_state" where
  "forEach_noteOff m chan [] = Inr m"
| "forEach_noteOff m chan (n # rest) =
     (if still_active m chan n then
        (case noteOff m chan n of
           Inl e \<Rightarrow> Inl e
         | Inr m' \<Rightarrow> forEach_noteOff m' chan rest)
      else forEach_noteOff m chan rest)"

definition allNotesOff :: "midi_state \<Rightarrow> int \<Rightarrow> js_error + midi_state" where
  "allNotesOff m chan =
     (case activeNotes m chan of
        None \<Rightarrow> Inr m
      | Some active \<Rightarrow> forEach_noteOff m chan active)"

text \<open>The note-off message of a note on a channel.\<close>

definition note_off_message :: "int \<Rightarrow> int \<Rightarrow> midi_message" where
  "note_off_message chan n = [0x80 OR (chan AND 0x0F), n AND 0x7F, 0]"

text \<open>
  The states of the MIDI layer that the program reaches. The engine constructs it once;
  \<open>selectOutput\<close> is called with a device only (the handler of the output select calls
  it when the chosen device exists, and nothing calls it with \<open>null\<close>); notes are
  switched by \<open>noteOn\<close>, \<open>noteOff\<close> and \<open>allNotesOff\<close>, from the engine or from a
  scheduled callback.
\<close>

inductive reachable :: "midi_state \<Rightarrow> bool" where
  constructed: "reachable OrchardMIDI"
| output_selected: "reachable m \<Longrightarrow> reachable (selectOutput m (Some device))"
| note_on: "reachable m \<Longrightarrow> noteOn m chan n vel = Inr m' \<Longrightarrow> reachable m'"
| note_off: "reachable m \<Longrightarrow> noteOff m chan n = Inr m' \<Longrightarrow> reachable m'"
| all_notes_off: "reachable m \<Longrightarrow> allNotesOff m chan = Inr m' \<Longrightarrow> reachable m'"

text \<open>
  What holds in every such state: the registries are those of the three channels, a
  registry has no duplicates, and without an output nothing is recorded.
\<close>

definition registries_ok :: "midi_state \<Rightarrow> bool" where
  "registries_ok m =
     (dom (activeNotes m) = {CHANNEL_CHORD, CHANNEL_PERFORMANCE, CHANNEL_BASS} \<and>
      (\<forall>chan active. activeNotes m chan = Some active \<longrightarrow>
         distinct active \<and> (midi_output m = None \<longrightarrow> active = [])))"

text \<open>A reachable state with a note sounding on the chord and the performance channel.\<close>

definition two_notes_sounding :: midi_state where
  "two_notes_sounding =
     \<lparr>midi_output = Some [[144, 60, 100], [145, 64, 90]],
      activeNotes = [0 \<mapsto> [60], 1 \<mapsto> [64], 2 \<mapsto> []]\<rparr>"

section \<open>Engine: routing of input notes\<close>

text \<open>
  The part of the state of \<open>OrchardEngine\<close> that the routing of an input note reads
  and writes. A settings object \<open>{ enabled, root, scale }\<close> is a \<open>scale_settings\<close>.
  \<open>quantizedNoteMap\<close> does not exist before the first press in quantize mode
  (\<open>None\<close>), afterwards it is a \<open>Map\<close> from the pressed note to the note sent.
\<close>

record scale_settings =
  ss_enabled :: bool
  ss_root :: int
  ss_scale :: string

record zone_settings =
  zone_mode :: string
  zone_chordType :: string
  zone_playstyle :: string
  zone_performanceMode :: string
  zone_keyMode :: scale_settings
  zone_quantize :: scale_settings

record split_settings =
  split_enabled :: bool
  split_point :: int
  split_lower :: zone_settings
  split_upper :: zone_settings

record effective_settings =
  eff_playstyle :: string
  eff_performanceMode :: string
  eff_keyMode :: scale_settings
  eff_quantize :: scale_settings

record engine_state =
  midi :: midi_state
  keyMode :: scale_settings
  quantize :: scale_settings
  playstyle :: string
  performanceMode :: string
  globalMode :: string
  split :: split_settings
  activeKey :: "int option"
  activeMidiNote :: "int option"
  velocity :: int
  passThroughNotes :: "int list"
  quantizedNoteMap :: "(int \<rightharpoonup> int) option"

definition getModeForNote :: "engine_state \<Rightarrow> int \<Rightarrow> string" where
  "getModeForNote s midiNote =
     (if \<not> split_enabled (split s) then globalMode s
      else if midiNote < split_point (split s)
      then zone_mode (split_lower (split s))
      else zone_mode (split_upper (split s)))"

definition getZoneForNote :: "engine_state \<Rightarrow> int \<Rightarrow> zone_settings" where
  "getZoneForNote s midiNote =
     (if midiNote < split_point (split s) then split_lower (split s)
      else split_upper (split s))"

text \<open>\<open>zone.chordType || null\<close>: the empty string is falsy.\<close>

definition getZoneChordType :: "engine_state \<Rightarrow> int \<Rightarrow> string option" where
  "getZoneChordType s midiNote =
     (if \<not> split_enabled (split s) then None
      else (let zone = getZoneForNote s midiNote
            in if zone_chordType zone = [] then None else Some (zone_chordType zone)))"

definition getEffectiveSettings :: "engine_state \<Rightarrow> int \<Rightarrow> effective_settings" where
  "getEffectiveSettings s midiNote =
     (if \<not> split_enabled (split s) then
        \<lparr>eff_playstyle = playstyle s,
         eff_performanceMode = performanceMode s,
         eff_keyMode = keyMode s,
         eff_quantize = quantize s\<rparr>
      else (let zone = getZoneForNote s midiNote
            in \<lparr>eff_playstyle = zone_playstyle zone,
                eff_performanceMode = zone_performanceMode zone,
                eff_keyMode = zone_keyMode zone,
                eff_quantize = zone_quantize zone\<rparr>))"

text \<open>A call of a method of \<open>this.midi\<close> from the engine.\<close>

definition with_midi ::
  "engine_state \<Rightarrow> (midi_state \<Rightarrow> js_error + midi_state) \<Rightarrow> js_error + engine_state" where
  "with_midi s f = (case f (midi s) of Inl e \<Rightarrow> Inl e | Inr m \<Rightarrow> Inr (s\<lparr>midi := m\<rparr>))"

text \<open>
  \<open>onMIDINoteOn(midiNote, velocity)\<close>. The key highlight, the audio preview and the
  display are outside the engine core and have no effect on the state above. The chord
  generation of the last branch, \<open>updateOutputWithOptions(velocity, midiNote,
  zoneChordType)\<close>, is the parameter \<open>updateOutputWithOptions\<close>.
\<close>

definition onMIDINoteOn ::
  "(engine_state \<Rightarrow> int \<Rightarrow> int \<Rightarrow> string option \<Rightarrow> js_error + engine_state) \<Rightarrow>
   engine_state \<Rightarrow> int \<Rightarrow> int \<Rightarrow> js_error + engine_state" where
  "onMIDINoteOn updateOutputWithOptions s midiNote vel =
     (let keyNote = js_rem midiNote 12;
          mode = getModeForNote s midiNote
      in if mode = ''off'' then
           (let s1 = s\<lparr>passThroughNotes := set_add (passThroughNotes s) midiNote\<rparr>
            in with_midi s1 (\<lambda>m. noteOn m CHANNEL_CHORD midiNote vel))
         else if mode = ''quantize'' then
           (let settings = getEffectiveSettings s midiNote
            in case quantizeNoteToKey midiNote (ss_root (eff_quantize settings))
                      (ss_scale (eff_quantize settings)) of
                 Inl e \<Rightarrow> Inl e
               | Inr outputNote \<Rightarrow>
                   (let s1 = s\<lparr>passThroughNotes := set_add (passThroughNotes s) midiNote\<rparr>;
                        noteMap = (case quantizedNoteMap s1 of
                                     None \<Rightarrow> Map.empty
                                   | Some existing \<Rightarrow> existing);
                        s2 = s1\<lparr>quantizedNoteMap := Some (noteMap(midiNote \<mapsto> outputNote))\<rparr>
                    in with_midi s2 (\<lambda>m. noteOn m CHANNEL_CHORD outputNote vel)))
         else
           (let s1 = s\<lparr>activeMidiNote := Some midiNote,
                        activeKey := Some keyNote,
                        velocity := vel\<rparr>;
                zoneChordType = getZoneChordType s1 midiNote
            in updateOutputWithOptions s1 vel midiNote zoneChordType))"

text \<open>
  \<open>onMIDINoteOff(midiNote)\<close>. \<open>stopOutput()\<close> of the chord-generation release is the
  parameter \<open>stopOutput\<close>.
\<close>

definition onMIDINoteOff ::
  "(engine_state \<Rightarrow> js_error + engine_state) \<Rightarrow> engine_state \<Rightarrow> int \<Rightarrow>
   js_error + engine_state" where
  "onMIDINoteOff stopOutput s midiNote =
     (if midiNote \<in> set (passThroughNotes s) then
        (let s1 = s\<lparr>passThroughNotes := set_delete (passThroughNotes s) midiNote\<rparr>
         in case quantizedNoteMap s1 of
              None \<Rightarrow> with_midi s1 (\<lambda>m. noteOff m CHANNEL_CHORD midiNote)
            | Some noteMap \<Rightarrow>
                (case noteMap midiNote of
                   None \<Rightarrow> with_midi s1 (\<lambda>m. noteOff m CHANNEL_CHORD midiNote)
                 | Some quantizedNote \<Rightarrow>
                     (let s2 = s1\<lparr>quantizedNoteMap := Some (noteMap(midiNote := None))\<rparr>
                      in with_midi s2 (\<lambda>m. noteOff m CHANNEL_CHORD quantizedNote))))
      else if activeMidiNote s = Some midiNote then
        (case stopOutput s of
           Inl e \<Rightarrow> Inl e
         | Inr s1 \<Rightarrow> Inr (s1\<lparr>activeKey := None, activeMidiNote := None\<rparr>))
      else Inr s)"

text \<open>The note-on message of a note on a channel.\<close>

definition note_on_message :: "int \<Rightarrow> int \<Rightarrow> int \<Rightarrow> midi_message" where
  "note_on_message chan n vel = [0x90 OR (chan AND 0x0F), n AND 0x7F, vel AND 0x7F]"

text \<open>
  The engine after construction (\<open>getDefaultState\<close>, with a fresh \<open>OrchardMIDI\<close>),
  and the same engine with an output selected and the global mode set to quantize.
\<close>

definition default_scale_settings :: scale_settings where
  "default_scale_settings = \<lparr>ss_enabled = False, ss_root = 0, ss_scale = ''major''\<rparr>"

definition OrchardEngine :: engine_state where
  "OrchardEngine =
     \<lparr>midi = OrchardMIDI,
      keyMode = default_scale_settings,
      quantize = default_scale_settings,
      playstyle = ''advanced'',
      performanceMode = ''off'',
      globalMode = ''chord'',
      split =
        \<lparr>split_enabled = False,
         split_point = 60,
         split_lower =
           \<lparr>zone_mode = ''chord'', zone_chordType = '''', zone_playstyle = ''advanced'',
            zone_performanceMode = ''off'', zone_keyMode = default_scale_settings,
            zone_quantize = default_scale_settings\<rparr>,
         split_upper =
           \<lparr>zone_mode = ''off'', zone_chordType = '''', zone_playstyle = ''advanced'',
            zone_performanceMode = ''off'', zone_keyMode = default_scale_settings,
            zone_quantize = default_scale_settings\<rparr>\<rparr>,
      activeKey = None,
      activeMidiNote = None,
      velocity = 100,
      passThroughNotes = [],
      quantizedNoteMap = None\<rparr>"

definition quantize_session :: engine_state where
  "quantize_session =
     OrchardEngine\<lparr>midi := selectOutput OrchardMIDI (Some []), globalMode := ''quantize''\<rparr>"

text \<open>\<open>setQuantize(enabled, root, scale)\<close>.\<close>

definition setQuantize :: "engine_state \<Rightarrow> bool \<Rightarrow> int \<Rightarrow> string \<Rightarrow> engine_state" where
  "setQuantize s enabled rootNote scaleName =
     s\<lparr>quantize := \<lparr>ss_enabled = enabled, ss_root = rootNote, ss_scale = scaleName\<rparr>\<rparr>"

text \<open>
  Two runs of the engine in quantize mode. In both, key 61 is pressed while the scale is
  C major (root 0), which sends note 60; no chord is generated on the way. In the first
  run the key is released at once. In the second the scale root is set to 1 and the same
  key arrives again before its release (a second input source, or a controller that
  repeats the note-on), then the key is released, twice. \<open>observed\<close> reads the
  messages sent, the registry of the chord channel, the pass-through notes and the map
  entry of key 61.
\<close>

definition no_chord_output ::
  "engine_state \<Rightarrow> int \<Rightarrow> int \<Rightarrow> string option \<Rightarrow> js_error + engine_state" where
  "no_chord_output s vel midiNote zoneChordType = Inr s"

definition press_and_release :: "js_error + engine_state" where
  "press_and_release =
     then_call (onMIDINoteOn no_chord_output quantize_session 61 100)
       (\<lambda>s1. onMIDINoteOff Inr s1 61)"

definition repress_after_scale_change :: "js_error + engine_state" where
  "repress_after_scale_change =
     then_call (onMIDINoteOn no_chord_output quantize_session 61 100)
       (\<lambda>s1. then_call (onMIDINoteOn no_chord_output (setQuantize s1 False 1 ''major'') 61 100)
          (\<lambda>s3. then_call (onMIDINoteOff Inr s3 61)
             (\<lambda>s4. onMIDINoteOff Inr s4 61)))"

definition observed ::
  "js_error + engine_state \<Rightarrow>
   js_error + (midi_message list option \<times> int list option \<times> int list \<times> int option)" where
  "observed r =
     map_sum id
       (\<lambda>s. (midi_output (midi s), activeNotes (midi s) CHANNEL_CHORD, passThroughNotes s,
             (case quantizedNoteMap s of None \<Rightarrow> None | Some noteMap \<Rightarrow> noteMap 61))) r"

section \<open>Properties\<close>

lemma js_slice_interior: "js_slice xs 1 (- 1) = butlast (tl xs)"
proof (cases xs)
  case Nil
  then show ?thesis by (simp add: js_slice_def)
next
  case (Cons x ys)
  have "nat (int (length ys) - 1) = length ys - 1"
    by arith
  then have "take (nat (int (length ys) - 1)) ys = butlast ys"
    by (simp add: butlast_conv_take)
  with Cons show ?thesis
    by (simp add: js_slice_def Let_def)
qed

text \<open>
  C8: the pattern \<open>upDown\<close> on notes [60, 64, 67] gives [60, 64, 67, 64]; for every
  list of at least two notes it is the ascending sorted list followed by the reversed
  interior of that list (all but its first and last position), so neither end is played
  twice.
\<close>

theorem applyArpPattern_upDown:
  "applyArpPattern rnd [60, 64, 67] ''upDown'' = [60, 64, 67, 64] \<and>
   (2 \<le> length notes \<longrightarrow>
      applyArpPattern rnd notes ''upDown'' = sort notes @ rev (butlast (tl (sort notes))) \<and>
      length (applyArpPattern rnd notes ''upDown'') = 2 * length notes - 2)"
proof -
  have a: "applyArpPattern rnd [60, 64, 67] ''upDown'' = [60, 64, 67, 64]"
    by (simp add: applyArpPattern_def js_slice_def)
  have b: "applyArpPattern rnd notes ''upDown'' = sort notes @ rev (butlast (tl (sort notes)))"
    if "2 \<le> length notes"
    using that by (simp add: applyArpPattern_def Let_def js_slice_interior)
  have c: "length (sort notes @ rev (butlast (tl (sort notes)))) = 2 * length notes - 2"
    if "2 \<le> length notes"
    using that by simp
  from a b c show ?thesis by simp
qed

theorem applyArpPattern_upDown_witness:
  "2 \<le> length [67, 60, 72, 64 :: int] \<and>
   applyArpPattern (\<lambda>_. 0) [67, 60, 72, 64] ''upDown'' = [60, 64, 67, 72, 67, 64]"
  using applyArpPattern_upDown [of "\<lambda>_. 0" "[67, 60, 72, 64]"] by simp

text \<open>
  C9: for every integer root and every octave shift from -2 to 2 the bass note is
  root + 12 * shift clamped into the band from 24 to 60, so it always lies in that band.
\<close>

theorem applyBassVoicing_clamped:
  "- 2 \<le> shift \<and> shift \<le> 2 \<longrightarrow>
     applyBassVoicing rootNote shift =
       (if rootNote + 12 * shift < 24 then 24
        else if 60 < rootNote + 12 * shift then 60
        else rootNote + 12 * shift) \<and>
     24 \<le> applyBassVoicing rootNote shift \<and> applyBassVoicing rootNote shift \<le> 60"
  by (simp add: applyBassVoicing_def Let_def)

theorem applyBassVoicing_clamped_witness:
  "(- 2 \<le> (- 2 :: int) \<and> (- 2 :: int) \<le> 2) \<and> applyBassVoicing 30 (- 2) = 24 \<and>
   applyBassVoicing 127 2 = 60 \<and> applyBassVoicing 48 0 = 48"
  using applyBassVoicing_clamped [of "- 2" 30] applyBassVoicing_clamped [of 2 127]
    applyBassVoicing_clamped [of 0 48]
  by simp

subsection \<open>Chord generation\<close>

lemma set_foldl_set_add: "set (foldl set_add acc xs) = set acc \<union> set xs"
  by (induction xs arbitrary: acc) (auto simp: set_add_def)

lemma distinct_foldl_set_add: "distinct acc \<Longrightarrow> distinct (foldl set_add acc xs)"
  by (induction xs arbitrary: acc) (auto simp: set_add_def)

lemma sort_new_Set: "sort (new_Set xs) = sorted_list_of_set (set xs)"
proof -
  have "distinct (new_Set xs)" and "set (new_Set xs) = set xs"
    by (simp_all add: new_Set_def distinct_foldl_set_add set_foldl_set_add)
  then show ?thesis
    by (metis distinct_remdups_id sorted_list_of_set_sort_remdups)
qed

lemma set_foldl_push_extension:
  "set (foldl push_extension acc extensions) = set acc \<union> selected_intervals extensions"
  by (induction extensions arbitrary: acc)
     (auto simp: push_extension_def hasOwnProperty_def selected_intervals_def
        List.map_filter_def split: option.splits)

lemma chordNotes_spec_strict: "sorted_wrt (<) (chordNotes_spec r S) \<and> distinct (chordNotes_spec r S)"
proof -
  have "sorted_wrt (<) (sorted_list_of_set S)"
    by simp
  then have "sorted_wrt (<) (map (\<lambda>i. r + i) (sorted_list_of_set S))"
    by (simp add: sorted_wrt_map)
  then have "sorted_wrt (<) (chordNotes_spec r S)"
    unfolding chordNotes_spec_def by (rule sorted_wrt_filter)
  then show ?thesis
    by (simp add: strict_sorted_iff)
qed

lemma generateChord_own:
  assumes "map_of CHORD_INTERVALS chordType = Some base"
  shows "generateChord rootNote chordType extensions =
           Inr (chordNotes_spec rootNote (set base \<union> selected_intervals extensions))"
  using assms
  by (simp add: generateChord_def js_get_def Let_def sort_new_Set set_foldl_push_extension
      chordNotes_spec_def in_midi_range_def [abs_def])

lemma CHORD_INTERVALS_known:
  "chordType \<in> {''Maj'', ''Min'', ''Sus'', ''Dim''} \<Longrightarrow>
     \<exists>base. map_of CHORD_INTERVALS chordType = Some base \<and> length base = 3"
  by (auto simp: CHORD_INTERVALS_def)

lemma CHORD_INTERVALS_unknown:
  "chordType \<notin> {''Maj'', ''Min'', ''Sus'', ''Dim''} \<Longrightarrow> map_of CHORD_INTERVALS chordType = None"
  by (simp add: CHORD_INTERVALS_def)

text \<open>
  C1: for every root, every chord type among Maj, Min, Sus, Dim and every selection from
  the extensions 6, m7, M7, 9, \<open>generateChord\<close> returns the union of the three base
  intervals of the type and the single interval of each selected extension, without
  duplicates and ascending, each added to the root, results outside 0..127 dropped; the
  returned list is strictly ascending and has no duplicates.
\<close>

theorem generateChord_sorted_union:
  assumes "chordType \<in> {''Maj'', ''Min'', ''Sus'', ''Dim''}"
    and "set extensions \<subseteq> {''6'', ''m7'', ''M7'', ''9''}"
  shows "\<exists>base. map_of CHORD_INTERVALS chordType = Some base \<and> length base = 3 \<and>
           (\<forall>ext \<in> set extensions. \<exists>interval. map_of EXTENSION_INTERVALS ext = Some interval) \<and>
           generateChord rootNote chordType extensions =
             Inr (chordNotes_spec rootNote (set base \<union> selected_intervals extensions)) \<and>
           sorted_wrt (<) (chordNotes_spec rootNote (set base \<union> selected_intervals extensions)) \<and>
           distinct (chordNotes_spec rootNote (set base \<union> selected_intervals extensions))"
proof -
  from assms(1) obtain base where b: "map_of CHORD_INTERVALS chordType = Some base" "length base = 3"
    using CHORD_INTERVALS_known by blast
  have e: "\<forall>ext \<in> set extensions. \<exists>interval. map_of EXTENSION_INTERVALS ext = Some interval"
    using assms(2) by (auto simp: EXTENSION_INTERVALS_def)
  from b e show ?thesis
    using generateChord_own [OF b(1)] chordNotes_spec_strict by blast
qed

theorem generateChord_sorted_union_witness:
  "''Maj'' \<in> {''Maj'', ''Min'', ''Sus'', ''Dim''} \<and>
   set [''9'', ''m7''] \<subseteq> {''6'', ''m7'', ''M7'', ''9''} \<and>
   generateChord 60 ''Maj'' [''9'', ''m7''] = Inr [60, 64, 67, 70, 74]"
proof -
  have h1: "''Maj'' \<in> {''Maj'', ''Min'', ''Sus'', ''Dim''}" by simp
  have h2: "set [''9'', ''m7''] \<subseteq> {''6'', ''m7'', ''M7'', ''9''}" by simp
  have v: "chordNotes_spec 60 (set [0, 4, 7] \<union> selected_intervals [''9'', ''m7'']) = [60, 64, 67, 70, 74]"
    by (simp add: chordNotes_spec_def selected_intervals_def List.map_filter_def
        EXTENSION_INTERVALS_def insert_commute)
  from generateChord_sorted_union [OF h1 h2, of 60]
  have "generateChord 60 ''Maj'' [''9'', ''m7''] =
          Inr (chordNotes_spec 60 (set [0, 4, 7] \<union> selected_intervals [''9'', ''m7'']))"
    by (auto simp: CHORD_INTERVALS_def)
  with v h1 h2 show ?thesis by simp
qed

text \<open>
  C3 (as the code has it): a chord type that is not one of Maj, Min, Sus, Dim makes
  \<open>generateChord\<close> throw a TypeError, for every root and extension list; the function
  has no fallback to the Major chord.
\<close>

theorem generateChord_unknown_type_throws:
  "chordType \<notin> {''Maj'', ''Min'', ''Sus'', ''Dim''} \<longrightarrow>
     generateChord rootNote chordType extensions = Inl TypeError"
proof
  assume "chordType \<notin> {''Maj'', ''Min'', ''Sus'', ''Dim''}"
  then have "map_of CHORD_INTERVALS chordType = None"
    by (rule CHORD_INTERVALS_unknown)
  then show "generateChord rootNote chordType extensions = Inl TypeError"
    by (simp add: generateChord_def js_get_def)
qed

theorem generateChord_unknown_type_throws_witness:
  "''Aug'' \<notin> {''Maj'', ''Min'', ''Sus'', ''Dim''} \<and> generateChord 60 ''Aug'' [''m7''] = Inl TypeError"
  using generateChord_unknown_type_throws [of "''Aug''" 60 "[''m7'']"] by simp

text \<open>
  C3 (as stated) fails: the unknown chord type Aug does not give the notes of the Major
  chord on the same root, the call throws.
\<close>

theorem generateChord_no_fallback_counterexample:
  "''Aug'' \<notin> {''Maj'', ''Min'', ''Sus'', ''Dim''} \<and>
   generateChord 60 ''Aug'' [] = Inl TypeError \<and>
   generateChord 60 ''Maj'' [] = Inr [60, 64, 67]"
  by (simp add: generateChord_def js_get_def CHORD_INTERVALS_def Object_prototype_keys_def
      new_Set_def set_add_def in_midi_range_def)

subsection \<open>Voicing\<close>

lemma pitch_class_octave: "pitch_class (n + 12) = pitch_class n" "pitch_class (n - 12) = pitch_class n"
  by (simp_all add: pitch_class_def mod_diff_eq [symmetric])

lemma pitch_classes_sort: "pitch_classes (sort ns) = pitch_classes ns"
  by (simp add: pitch_classes_def)

lemma pitch_classes_voicing_step: "pitch_classes (voicing_step position result) = pitch_classes result"
proof (cases "position > 0")
  case True
  then show ?thesis
    by (cases result) (simp_all add: voicing_step_def pitch_classes_def pitch_class_octave)
next
  case False
  show ?thesis
  proof (cases "position < 0 \<and> result \<noteq> []")
    case True
    then have "mset result = mset (butlast result) + {#last result#}"
      by (metis append_butlast_last_id mset.simps(1) mset.simps(2) union_code
          add_mset_add_single)
    with True \<open>\<not> position > 0\<close> show ?thesis
      by (simp add: voicing_step_def pitch_classes_def pitch_class_octave)
  next
    case False
    with \<open>\<not> position > 0\<close> show ?thesis
      by (auto simp: voicing_step_def)
  qed
qed

lemma pitch_classes_voicing_loop:
  "pitch_classes (voicing_loop steps position result) = pitch_classes result"
  by (induction steps arbitrary: result) (simp_all add: pitch_classes_voicing_step)

lemma stays_in_range_final:
  assumes "stays_in_range notes position"
  shows "list_all in_midi_range (voicing_loop (nat \<bar>position\<bar>) position (sort notes))"
proof -
  have "nat \<bar>position\<bar> \<in> set [0 ..< Suc (nat \<bar>position\<bar>)]"
    by simp
  with assms show ?thesis
    unfolding stays_in_range_def list_all_iff by blast
qed

lemma applyVoicing_in_range:
  assumes "stays_in_range notes position"
  shows "pitch_classes (applyVoicing notes position) = pitch_classes notes"
proof (cases "length notes = 0")
  case True
  then show ?thesis by (simp add: applyVoicing_def)
next
  case False
  have "filter in_midi_range (voicing_loop (nat \<bar>position\<bar>) position (sort notes)) =
          voicing_loop (nat \<bar>position\<bar>) position (sort notes)"
    using stays_in_range_final [OF assms] by (simp add: list_all_iff)
  with False show ?thesis
    by (simp add: applyVoicing_def Let_def pitch_classes_voicing_loop pitch_classes_sort)
qed

text \<open>
  C5: for every position n from -4 to 4 and every note list that stays within 0..127
  throughout both applications, applying the voicing n and then the voicing -n gives
  notes with the same multiset of pitch classes as the original notes.
\<close>

theorem applyVoicing_round_trip:
  assumes "- 4 \<le> n" and "n \<le> 4"
    and "stays_in_range notes n"
    and "stays_in_range (applyVoicing notes n) (- n)"
  shows "image_mset pitch_class (mset (applyVoicing (applyVoicing notes n) (- n))) =
         image_mset pitch_class (mset notes)"
  using applyVoicing_in_range [OF assms(3)] applyVoicing_in_range [OF assms(4)]
  by (simp add: pitch_classes_def)

theorem applyVoicing_round_trip_witness:
  "- 4 \<le> (2::int) \<and> (2::int) \<le> 4 \<and> stays_in_range [60, 64, 67] 2 \<and>
   stays_in_range (applyVoicing [60, 64, 67] 2) (- 2) \<and>
   applyVoicing [60, 64, 67] 2 = [67, 72, 76] \<and>
   image_mset pitch_class (mset (applyVoicing [67, 72, 76] (- 2))) =
     image_mset pitch_class (mset [60, 64, 67])"
proof -
  have v: "applyVoicing [60, 64, 67] 2 = [67, 72, 76]"
    by code_simp
  have h3: "stays_in_range [60, 64, 67] 2"
    by code_simp
  have h4: "stays_in_range (applyVoicing [60, 64, 67] 2) (- 2)"
    unfolding v by code_simp
  from applyVoicing_round_trip [of 2 "[60, 64, 67]", OF _ _ h3 h4] v h3 h4
  show ?thesis by simp
qed

subsection \<open>Scale quantisation\<close>

lemma js_rem_nonneg: "0 \<le> a \<Longrightarrow> js_rem a 12 = a mod 12"
  by (cases "a = 0") (simp_all add: js_rem_def)

lemma SCALE_DEGREES_nonempty: "map_of SCALE_DEGREES scaleType = Some scaleDegrees \<Longrightarrow> scaleDegrees \<noteq> []"
  by (auto simp: SCALE_DEGREES_def split: if_splits)

lemma quantizeNoteToKey_offset:
  assumes "map_of SCALE_DEGREES scaleType = Some scaleDegrees"
    and "0 \<le> midiNote" and "midiNote \<le> 127"
  shows "quantizeNoteToKey midiNote keyRoot scaleType =
           Inr (max 0 (min 127 (12 * (midiNote div 12) +
                  quantize_offset scaleDegrees (midiNote mod 12) keyRoot)))"
proof -
  have ne: "scaleDegrees \<noteq> []"
    using assms(1) by (rule SCALE_DEGREES_nonempty)
  have p: "js_rem midiNote 12 = midiNote mod 12"
    using assms(2) by (rule js_rem_nonneg)
  have x: "12 * (midiNote div 12) + midiNote mod 12 = midiNote"
    by simp
  define interval where "interval = js_rem ((midiNote mod 12 - keyRoot) + 12) 12"
  define qn where
    "qn = js_rem (keyRoot + fst (nearest_loop interval scaleDegrees (hd scaleDegrees, 12))) 12"
  show ?thesis
  proof (cases "interval \<in> set scaleDegrees")
    case True
    then have "quantizeNoteToKey midiNote keyRoot scaleType = Inr midiNote"
      using assms(1) by (simp add: quantizeNoteToKey_def js_get_def p interval_def)
    moreover have "quantize_offset scaleDegrees (midiNote mod 12) keyRoot = midiNote mod 12"
      using True by (simp add: quantize_offset_def interval_def)
    ultimately show ?thesis
      using assms(2,3) by (simp only: x) simp
  next
    case False
    let ?adj = "\<lambda>base. if qn < midiNote mod 12 \<and> midiNote mod 12 - qn > 6 then base + 12
                     else if qn > midiNote mod 12 \<and> qn - midiNote mod 12 > 6 then base - 12
                     else base"
    have q: "quantizeNoteToKey midiNote keyRoot scaleType =
               Inr (max 0 (min 127 (?adj (midiNote div 12 * 12 + qn))))"
      using False assms(1) ne unfolding qn_def interval_def
      by (simp add: quantizeNoteToKey_def js_get_def p Let_def list.case_eq_if
          del: nearest_loop.simps split del: if_split)
    have off: "quantize_offset scaleDegrees (midiNote mod 12) keyRoot = ?adj qn"
      using False
      by (simp add: quantize_offset_def Let_def interval_def [symmetric] qn_def [symmetric]
          del: nearest_loop.simps)
    have "?adj (midiNote div 12 * 12 + qn) = 12 * (midiNote div 12) + ?adj qn"
      by simp
    with q off show ?thesis
      by (simp only:)
  qed
qed

lemma offsets_checked:
  "list_all (\<lambda>ds. list_all (\<lambda>r. list_all (offset_lands_in_scale ds r) [0..11]) [0..11])
     (map snd SCALE_DEGREES)"
  by code_simp

lemma offset_lands:
  assumes "map_of SCALE_DEGREES scaleType = Some scaleDegrees"
    and "0 \<le> keyRoot" "keyRoot \<le> 11" "0 \<le> p" "p \<le> 11"
  shows "offset_lands_in_scale scaleDegrees keyRoot p"
proof -
  have "scaleDegrees \<in> set (map snd SCALE_DEGREES)"
    using map_of_SomeD [OF assms(1)] by force
  moreover have "keyRoot \<in> set [0..11]" "p \<in> set [0..11]"
    using assms by simp_all
  ultimately show ?thesis
    using offsets_checked unfolding list_all_iff by blast
qed

lemma quantizeNoteToKey_in_scale:
  assumes "map_of SCALE_DEGREES scaleType = Some scaleDegrees"
    and "0 \<le> y"
    and "js_rem (((y mod 12) - keyRoot) + 12) 12 \<in> set scaleDegrees"
  shows "quantizeNoteToKey y keyRoot scaleType = Inr y"
  using assms by (simp add: quantizeNoteToKey_def js_get_def js_rem_nonneg)

lemma quantizeNoteToKey_own_idempotent:
  assumes m: "map_of SCALE_DEGREES scaleType = Some scaleDegrees"
    and x: "0 \<le> x" "x \<le> 127" and r: "0 \<le> keyRoot" "keyRoot \<le> 11"
  shows "\<exists>y. quantizeNoteToKey x keyRoot scaleType = Inr y \<and>
             quantizeNoteToKey y keyRoot scaleType = Inr y"
proof -
  define d where "d = quantize_offset scaleDegrees (x mod 12) keyRoot - x mod 12"
  define y where "y = max 0 (min 127 (x + d))"
  have "12 * (x div 12) + quantize_offset scaleDegrees (x mod 12) keyRoot = x + d"
    unfolding d_def by (simp add: algebra_simps)
  then have qx: "quantizeNoteToKey x keyRoot scaleType = Inr y"
    using quantizeNoteToKey_offset [OF m x, of keyRoot] by (simp add: y_def)
  have "offset_lands_in_scale scaleDegrees keyRoot (x mod 12)"
    using m r by (rule offset_lands) simp_all
  then have d: "- 1 \<le> d" "d \<le> 1"
    and land: "js_rem ((((x mod 12 + d) mod 12) - keyRoot) + 12) 12 \<in> set scaleDegrees"
    by (simp_all add: offset_lands_in_scale_def Let_def d_def [symmetric])
  have "quantizeNoteToKey y keyRoot scaleType = Inr y"
  proof (cases "0 \<le> x + d \<and> x + d \<le> 127")
    case True
    then have yx: "y = x + d" by (simp add: y_def)
    have "y mod 12 = (x mod 12 + d) mod 12"
      unfolding yx by (simp add: mod_add_left_eq)
    with land have "js_rem (((y mod 12) - keyRoot) + 12) 12 \<in> set scaleDegrees"
      by simp
    moreover have "0 \<le> y" using True yx by simp
    ultimately show ?thesis
      using m by (simp add: quantizeNoteToKey_in_scale)
  next
    case False
    then have "y = x"
      using x d by (auto simp: y_def)
    with qx show ?thesis by simp
  qed
  with qx show ?thesis by blast
qed

lemma quantizeNoteToKey_undefined:
  assumes "scaleType \<notin> set supported_scales" and "scaleType \<notin> set Object_prototype_keys"
  shows "quantizeNoteToKey midiNote keyRoot scaleType = Inr midiNote"
proof -
  have "map_of SCALE_DEGREES scaleType = None"
    using assms(1) by (simp add: supported_scales_def map_of_eq_None_iff)
  with assms(2) show ?thesis
    by (simp add: quantizeNoteToKey_def js_get_def)
qed

lemma quantizeNoteToKey_inherited:
  assumes "scaleType \<notin> set supported_scales" and "scaleType \<in> set Object_prototype_keys"
  shows "quantizeNoteToKey midiNote keyRoot scaleType = Inl TypeError"
proof -
  have "map_of SCALE_DEGREES scaleType = None"
    using assms(1) by (simp add: supported_scales_def map_of_eq_None_iff)
  with assms(2) show ?thesis
    by (simp add: quantizeNoteToKey_def js_get_def)
qed

text \<open>
  C4: quantisation is idempotent. For every note x in 0..127, every scale root in 0..11
  and every scale type, quantising the quantised note gives the same outcome as
  quantising x; whenever the call returns (every scale type that is not a property name
  inherited from \<open>Object.prototype\<close>), the returned note is a fixed point.
\<close>

theorem quantizeNoteToKey_idempotent:
  "0 \<le> x \<and> x \<le> 127 \<and> 0 \<le> scaleRoot \<and> scaleRoot \<le> 11 \<longrightarrow>
     then_call (quantizeNoteToKey x scaleRoot scaleType)
       (\<lambda>y. quantizeNoteToKey y scaleRoot scaleType) =
     quantizeNoteToKey x scaleRoot scaleType \<and>
     (scaleType \<notin> set Object_prototype_keys \<longrightarrow>
        (\<exists>y. quantizeNoteToKey x scaleRoot scaleType = Inr y \<and>
             quantizeNoteToKey y scaleRoot scaleType = Inr y))"
proof
  assume a: "0 \<le> x \<and> x \<le> 127 \<and> 0 \<le> scaleRoot \<and> scaleRoot \<le> 11"
  show "then_call (quantizeNoteToKey x scaleRoot scaleType)
       (\<lambda>y. quantizeNoteToKey y scaleRoot scaleType) =
     quantizeNoteToKey x scaleRoot scaleType \<and>
     (scaleType \<notin> set Object_prototype_keys \<longrightarrow>
        (\<exists>y. quantizeNoteToKey x scaleRoot scaleType = Inr y \<and>
             quantizeNoteToKey y scaleRoot scaleType = Inr y))"
  proof (cases "map_of SCALE_DEGREES scaleType")
    case (Some scaleDegrees)
    from quantizeNoteToKey_own_idempotent [OF Some, of x scaleRoot] a
    show ?thesis by (auto simp: then_call_def)
  next
    case None
    then have n: "scaleType \<notin> set supported_scales"
      by (simp add: supported_scales_def map_of_eq_None_iff)
    show ?thesis
    proof (cases "scaleType \<in> set Object_prototype_keys")
      case True
      with n show ?thesis
        by (simp add: quantizeNoteToKey_inherited then_call_def)
    next
      case False
      with n show ?thesis
        by (simp add: quantizeNoteToKey_undefined then_call_def)
    qed
  qed
qed

theorem quantizeNoteToKey_idempotent_witness:
  "(0 \<le> (61::int) \<and> (61::int) \<le> 127 \<and> 0 \<le> (0::int) \<and> (0::int) \<le> 11) \<and>
   ''major'' \<notin> set Object_prototype_keys \<and>
   quantizeNoteToKey 61 0 ''major'' = Inr 60 \<and> quantizeNoteToKey 60 0 ''major'' = Inr 60"
proof -
  have v: "quantizeNoteToKey 61 0 ''major'' = Inr 60"
    by code_simp
  have k: "''major'' \<notin> set Object_prototype_keys"
    by (simp add: Object_prototype_keys_def)
  from quantizeNoteToKey_idempotent [of 61 0 "''major''"] v k
  show ?thesis by simp
qed

text \<open>
  C10: a scale type that is not one of the eight supported names should give the input
  note back. The code misses the names inherited from \<open>Object.prototype\<close>: for
  \<open>constructor\<close> the guard \<open>!scaleDegrees\<close> does not fire and the call throws.
\<close>

theorem quantizeNoteToKey_inherited_key_throws:
  "''constructor'' \<notin> set supported_scales \<and>
   quantizeNoteToKey 60 0 ''constructor'' = Inl TypeError"
  by (simp add: quantizeNoteToKey_def js_get_def SCALE_DEGREES_def supported_scales_def
      Object_prototype_keys_def)

subsection \<open>Double arithmetic\<close>



























subsection \<open>Strum\<close>












subsection \<open>MIDI output\<close>

lemma noteOff_with_output:
  assumes "midi_output m = Some sent" and "activeNotes m chan = Some active"
  shows "noteOff m chan n =
           Inr (m\<lparr>midi_output := Some (sent @ [note_off_message chan n]),
                  activeNotes := (activeNotes m)(chan \<mapsto> set_delete active n)\<rparr>)"
  using assms by (simp add: noteOff_def note_off_message_def)

lemma noteOff_without_output: "midi_output m = None \<Longrightarrow> noteOff m chan n = Inr m"
  by (simp add: noteOff_def)

lemma forEach_noteOff_with_output:
  assumes "midi_output m = Some sent" and "activeNotes m chan = Some active"
    and "distinct ns" and "set ns \<subseteq> set active"
  shows "forEach_noteOff m chan ns =
           Inr (m\<lparr>midi_output := Some (sent @ map (note_off_message chan) ns),
                  activeNotes := (activeNotes m)(chan \<mapsto> filter (\<lambda>y. y \<notin> set ns) active)\<rparr>)"
  using assms
proof (induction ns arbitrary: m sent active)
  case Nil
  then have "(activeNotes m)(chan \<mapsto> active) = activeNotes m"
    by (simp add: map_upd_triv)
  with Nil show ?case by simp
next
  case (Cons n rest)
  let ?m' = "m\<lparr>midi_output := Some (sent @ [note_off_message chan n]),
                activeNotes := (activeNotes m)(chan \<mapsto> set_delete active n)\<rparr>"
  have live: "still_active m chan n"
    using Cons.prems by (simp add: still_active_def)
  have off: "noteOff m chan n = Inr ?m'"
    using Cons.prems(1,2) by (rule noteOff_with_output)
  have step: "forEach_noteOff m chan (n # rest) = forEach_noteOff ?m' chan rest"
    using live off by simp
  have ih: "forEach_noteOff ?m' chan rest =
          Inr (?m'\<lparr>midi_output := Some ((sent @ [note_off_message chan n]) @
                        map (note_off_message chan) rest),
                 activeNotes := (activeNotes ?m')(chan \<mapsto>
                        filter (\<lambda>y. y \<notin> set rest) (set_delete active n))\<rparr>)"
    using Cons.prems by (intro Cons.IH) (auto simp: set_delete_def)
  have f: "filter (\<lambda>y. y \<notin> set rest) (set_delete active n) =
           filter (\<lambda>y. y \<notin> set (n # rest)) active"
    by (auto simp: set_delete_def intro: filter_cong)
  have "?m'\<lparr>midi_output := Some ((sent @ [note_off_message chan n]) @
                        map (note_off_message chan) rest),
             activeNotes := (activeNotes ?m')(chan \<mapsto>
                        filter (\<lambda>y. y \<notin> set rest) (set_delete active n))\<rparr> =
        m\<lparr>midi_output := Some (sent @ map (note_off_message chan) (n # rest)),
          activeNotes := (activeNotes m)(chan \<mapsto> filter (\<lambda>y. y \<notin> set (n # rest)) active)\<rparr>"
    unfolding f by simp
  with step ih show ?case
    by (simp only:)
qed

lemma forEach_noteOff_without_output:
  "midi_output m = None \<Longrightarrow> forEach_noteOff m chan ns = Inr m"
  by (induction ns) (simp_all add: noteOff_without_output)

lemma allNotesOff_registered:
  assumes "activeNotes m chan = Some active" and "distinct active"
  shows "(\<forall>sent. midi_output m = Some sent \<longrightarrow>
            allNotesOff m chan =
              Inr (m\<lparr>midi_output := Some (sent @ map (note_off_message chan) active),
                     activeNotes := (activeNotes m)(chan \<mapsto> [])\<rparr>)) \<and>
         (midi_output m = None \<longrightarrow> allNotesOff m chan = Inr m)"
proof (intro conjI allI impI)
  fix sent
  assume "midi_output m = Some sent"
  then have "forEach_noteOff m chan active =
           Inr (m\<lparr>midi_output := Some (sent @ map (note_off_message chan) active),
                  activeNotes := (activeNotes m)(chan \<mapsto> filter (\<lambda>y. y \<notin> set active) active)\<rparr>)"
    using assms by (intro forEach_noteOff_with_output) simp_all
  moreover have "filter (\<lambda>y. y \<notin> set active) active = []"
    by (simp add: filter_empty_conv)
  ultimately show "allNotesOff m chan =
              Inr (m\<lparr>midi_output := Some (sent @ map (note_off_message chan) active),
                     activeNotes := (activeNotes m)(chan \<mapsto> [])\<rparr>)"
    using assms(1) by (simp add: allNotesOff_def)
next
  assume "midi_output m = None"
  then show "allNotesOff m chan = Inr m"
    using assms(1) by (simp add: allNotesOff_def forEach_noteOff_without_output)
qed

lemma distinct_set_add: "distinct s \<Longrightarrow> distinct (set_add s x)"
  by (simp add: set_add_def)

lemma distinct_set_delete: "distinct s \<Longrightarrow> distinct (set_delete s x)"
  by (simp add: set_delete_def)

lemma registries_ok_OrchardMIDI: "registries_ok OrchardMIDI"
  by (auto simp: registries_ok_def OrchardMIDI_def CHANNEL_CHORD_def CHANNEL_PERFORMANCE_def
      CHANNEL_BASS_def split: if_splits)

lemma registries_ok_selectOutput:
  "registries_ok m \<Longrightarrow> registries_ok (selectOutput m (Some device))"
  by (simp add: registries_ok_def selectOutput_def)

lemma registries_ok_noteOn:
  assumes "registries_ok m" and "noteOn m chan n vel = Inr m'"
  shows "registries_ok m'"
proof (cases "midi_output m")
  case None
  with assms show ?thesis by (simp add: noteOn_def)
next
  case (Some sent)
  with assms(2) obtain active where a: "activeNotes m chan = Some active"
    and m': "m' = m\<lparr>midi_output := Some (sent @ [[0x90 OR (chan AND 0x0F), n AND 0x7F, vel AND 0x7F]]),
                     activeNotes := (activeNotes m)(chan \<mapsto> set_add active n)\<rparr>"
    by (auto simp: noteOn_def Let_def split: option.splits)
  have "dom (activeNotes m') = dom (activeNotes m)"
    using a by (auto simp: m')
  moreover have "distinct (set_add active n)"
    using assms(1) a by (simp add: registries_ok_def distinct_set_add)
  ultimately show ?thesis
    using assms(1) by (auto simp: registries_ok_def m' split: if_splits)
qed

lemma registries_ok_noteOff:
  assumes "registries_ok m" and "noteOff m chan n = Inr m'"
  shows "registries_ok m'"
proof (cases "midi_output m")
  case None
  with assms show ?thesis by (simp add: noteOff_def)
next
  case (Some sent)
  with assms(2) obtain active where a: "activeNotes m chan = Some active"
    and m': "m' = m\<lparr>midi_output := Some (sent @ [[0x80 OR (chan AND 0x0F), n AND 0x7F, 0]]),
                     activeNotes := (activeNotes m)(chan \<mapsto> set_delete active n)\<rparr>"
    by (auto simp: noteOff_def Let_def split: option.splits)
  have "dom (activeNotes m') = dom (activeNotes m)"
    using a by (auto simp: m')
  moreover have "distinct (set_delete active n)"
    using assms(1) a by (simp add: registries_ok_def distinct_set_delete)
  ultimately show ?thesis
    using assms(1) by (auto simp: registries_ok_def m' split: if_splits)
qed

lemma registries_ok_forEach_noteOff:
  "registries_ok m \<Longrightarrow> forEach_noteOff m chan ns = Inr m' \<Longrightarrow> registries_ok m'"
proof (induction ns arbitrary: m)
  case Nil
  then show ?case by simp
next
  case (Cons n rest)
  show ?case
  proof (cases "still_active m chan n")
    case True
    with Cons.prems(2) obtain m1 where
      "noteOff m chan n = Inr m1" and "forEach_noteOff m1 chan rest = Inr m'"
      by (auto split: sum.splits)
    then show ?thesis
      using Cons.IH Cons.prems(1) registries_ok_noteOff by blast
  next
    case False
    with Cons show ?thesis by simp
  qed
qed

lemma registries_ok_allNotesOff:
  assumes "registries_ok m" and "allNotesOff m chan = Inr m'"
  shows "registries_ok m'"
proof (cases "activeNotes m chan")
  case None
  with assms show ?thesis by (simp add: allNotesOff_def)
next
  case (Some active)
  with assms show ?thesis
    by (simp add: allNotesOff_def registries_ok_forEach_noteOff)
qed

lemma reachable_registries_ok: "reachable m \<Longrightarrow> registries_ok m"
proof (induction rule: reachable.induct)
  case constructed
  show ?case by (rule registries_ok_OrchardMIDI)
next
  case (output_selected m device)
  then show ?case by (simp add: registries_ok_selectOutput)
next
  case (note_on m chan n vel m')
  then show ?case using registries_ok_noteOn by blast
next
  case (note_off m chan n m')
  then show ?case using registries_ok_noteOff by blast
next
  case (all_notes_off m chan m')
  then show ?case using registries_ok_allNotesOff by blast
qed

text \<open>
  C2: in every state the program reaches and for every channel, \<open>allNotesOff\<close> returns
  at once; on a channel that has a registry (0, 1, 2) it sends the note-off message of
  every note recorded there, in the order of recording and whatever started the note, and
  the registry of the channel is empty afterwards. Without an output nothing is recorded,
  so nothing is left to stop. Another channel has no registry, and the call does nothing.
\<close>

theorem allNotesOff_empties_registry:
  assumes "reachable m"
  shows "(chan \<in> {CHANNEL_CHORD, CHANNEL_PERFORMANCE, CHANNEL_BASS} \<longrightarrow>
            (\<exists>active m'.
               activeNotes m chan = Some active \<and>
               allNotesOff m chan = Inr m' \<and>
               midi_output m' =
                 map_option (\<lambda>sent. sent @ map (note_off_message chan) active) (midi_output m) \<and>
               (\<forall>n \<in> set active. \<exists>sent. midi_output m' = Some sent \<and>
                   note_off_message chan n \<in> set sent) \<and>
               activeNotes m' chan = Some [])) \<and>
         (chan \<notin> {CHANNEL_CHORD, CHANNEL_PERFORMANCE, CHANNEL_BASS} \<longrightarrow>
            activeNotes m chan = None \<and> allNotesOff m chan = Inr m)"
proof (intro conjI impI)
  have ok: "registries_ok m"
    using assms by (rule reachable_registries_ok)
  {
    assume "chan \<in> {CHANNEL_CHORD, CHANNEL_PERFORMANCE, CHANNEL_BASS}"
    then have "chan \<in> dom (activeNotes m)"
      using ok by (simp add: registries_ok_def)
    then obtain active where a: "activeNotes m chan = Some active"
      by blast
    then have d: "distinct active" and e: "midi_output m = None \<Longrightarrow> active = []"
      using ok by (simp_all add: registries_ok_def)
    show "\<exists>active m'.
               activeNotes m chan = Some active \<and>
               allNotesOff m chan = Inr m' \<and>
               midi_output m' =
                 map_option (\<lambda>sent. sent @ map (note_off_message chan) active) (midi_output m) \<and>
               (\<forall>n \<in> set active. \<exists>sent. midi_output m' = Some sent \<and>
                   note_off_message chan n \<in> set sent) \<and>
               activeNotes m' chan = Some []"
    proof (cases "midi_output m")
      case None
      then have "allNotesOff m chan = Inr m" and "active = []"
        using allNotesOff_registered [OF a d] e by simp_all
      with a None show ?thesis by simp
    next
      case (Some sent)
      let ?m' = "m\<lparr>midi_output := Some (sent @ map (note_off_message chan) active),
                     activeNotes := (activeNotes m)(chan \<mapsto> [])\<rparr>"
      have "allNotesOff m chan = Inr ?m'"
        using allNotesOff_registered [OF a d] Some by simp
      moreover have "midi_output ?m' =
          map_option (\<lambda>sent. sent @ map (note_off_message chan) active) (midi_output m)"
        using Some by simp
      moreover have "\<forall>n \<in> set active. \<exists>sent. midi_output ?m' = Some sent \<and>
                   note_off_message chan n \<in> set sent"
        by simp
      moreover have "activeNotes ?m' chan = Some []"
        by simp
      ultimately show ?thesis
        using a by blast
    qed
  }
  {
    assume "chan \<notin> {CHANNEL_CHORD, CHANNEL_PERFORMANCE, CHANNEL_BASS}"
    then have "chan \<notin> dom (activeNotes m)"
      using ok by (simp add: registries_ok_def)
    then show "activeNotes m chan = None"
      by blast
    then show "allNotesOff m chan = Inr m"
      by (simp add: allNotesOff_def)
  }
qed

lemma reachable_two_notes_sounding: "reachable two_notes_sounding"
proof -
  let ?m0 = "selectOutput OrchardMIDI (Some [])"
  let ?m1 = "\<lparr>midi_output = Some [[144, 60, 100]],
              activeNotes = [0 \<mapsto> [60], 1 \<mapsto> [], 2 \<mapsto> []]\<rparr>"
  have r0: "reachable ?m0"
    by (intro reachable.intros)
  have "noteOn ?m0 0 60 100 = Inr ?m1"
    by (auto simp: noteOn_def selectOutput_def OrchardMIDI_def set_add_def fun_eq_iff)
  with r0 have r1: "reachable ?m1"
    by (rule reachable.note_on)
  have "noteOn ?m1 1 64 90 = Inr two_notes_sounding"
    by (auto simp: noteOn_def two_notes_sounding_def set_add_def fun_eq_iff)
  with r1 show ?thesis
    by (rule reachable.note_on)
qed

theorem allNotesOff_empties_registry_witness:
  "reachable two_notes_sounding \<and>
   CHANNEL_PERFORMANCE \<in> {CHANNEL_CHORD, CHANNEL_PERFORMANCE, CHANNEL_BASS} \<and>
   map_sum id midi_output (allNotesOff two_notes_sounding CHANNEL_PERFORMANCE) =
     Inr (Some [[144, 60, 100], [145, 64, 90], [129, 64, 0]]) \<and>
   map_sum id (\<lambda>m. activeNotes m CHANNEL_PERFORMANCE)
     (allNotesOff two_notes_sounding CHANNEL_PERFORMANCE) = Inr (Some [])"
proof -
  have a: "activeNotes two_notes_sounding CHANNEL_PERFORMANCE = Some [64]"
    and o: "midi_output two_notes_sounding = Some [[144, 60, 100], [145, 64, 90]]"
    by (simp_all add: two_notes_sounding_def CHANNEL_PERFORMANCE_def)
  from allNotesOff_empties_registry [OF reachable_two_notes_sounding, of CHANNEL_PERFORMANCE]
  obtain m' where "allNotesOff two_notes_sounding CHANNEL_PERFORMANCE = Inr m'"
    and "midi_output m' =
           map_option (\<lambda>sent. sent @ map (note_off_message CHANNEL_PERFORMANCE) [64])
             (midi_output two_notes_sounding)"
    and "activeNotes m' CHANNEL_PERFORMANCE = Some []"
    using a by auto
  then show ?thesis
    using reachable_two_notes_sounding
    by (simp add: o note_off_message_def CHANNEL_PERFORMANCE_def)
qed

text \<open>
  The channels that have a registry are those of the constructor, 0, 1 and 2, in every
  state the methods reach.
\<close>

lemma OrchardMIDI_registries: "dom (activeNotes OrchardMIDI) = {0, 1, 2}"
  by (auto simp: OrchardMIDI_def split: if_splits)

lemma selectOutput_keeps_registries: "activeNotes (selectOutput m device) = activeNotes m"
  by (simp add: selectOutput_def)

lemma noteOn_keeps_registries:
  "noteOn m chan n vel = Inr m' \<Longrightarrow> dom (activeNotes m') = dom (activeNotes m)"
  by (auto simp: noteOn_def Let_def split: option.splits if_splits)

lemma noteOff_keeps_registries:
  "noteOff m chan n = Inr m' \<Longrightarrow> dom (activeNotes m') = dom (activeNotes m)"
  by (auto simp: noteOff_def Let_def split: option.splits if_splits)

subsection \<open>Routing of input notes\<close>

lemma noteOn_with_registry:
  assumes "activeNotes m chan = Some active"
  shows "noteOn m chan n vel =
           Inr (case midi_output m of
                  None \<Rightarrow> m
                | Some sent \<Rightarrow>
                    m\<lparr>midi_output := Some (sent @ [note_on_message chan n vel]),
                      activeNotes := (activeNotes m)(chan \<mapsto> set_add active n)\<rparr>)"
  using assms by (simp add: noteOn_def note_on_message_def split: option.splits)

lemma noteOff_with_registry:
  assumes "activeNotes m chan = Some active"
  shows "noteOff m chan n =
           Inr (case midi_output m of
                  None \<Rightarrow> m
                | Some sent \<Rightarrow>
                    m\<lparr>midi_output := Some (sent @ [note_off_message chan n]),
                      activeNotes := (activeNotes m)(chan \<mapsto> set_delete active n)\<rparr>)"
  using assms by (simp add: noteOff_def note_off_message_def split: option.splits)

lemma onMIDINoteOn_quantize:
  assumes "getModeForNote s n = ''quantize''"
    and "quantizeNoteToKey n (ss_root (eff_quantize (getEffectiveSettings s n)))
           (ss_scale (eff_quantize (getEffectiveSettings s n))) = Inr q"
  shows "onMIDINoteOn upd s n vel =
           with_midi
             (s\<lparr>passThroughNotes := set_add (passThroughNotes s) n,
                quantizedNoteMap :=
                  Some ((case quantizedNoteMap s of None \<Rightarrow> Map.empty | Some existing \<Rightarrow> existing)
                        (n \<mapsto> q))\<rparr>)
             (\<lambda>m. noteOn m CHANNEL_CHORD q vel)"
  using assms by (simp add: onMIDINoteOn_def Let_def)

lemma onMIDINoteOff_mapped:
  assumes "n \<in> set (passThroughNotes s)"
    and "quantizedNoteMap s = Some noteMap" and "noteMap n = Some q"
  shows "onMIDINoteOff stop s n =
           with_midi
             (s\<lparr>passThroughNotes := set_delete (passThroughNotes s) n,
                quantizedNoteMap := Some (noteMap(n := None))\<rparr>)
             (\<lambda>m. noteOff m CHANNEL_CHORD q)"
  using assms by (simp add: onMIDINoteOff_def Let_def)

lemma quantizeNoteToKey_returns:
  assumes "scaleType \<notin> set Object_prototype_keys"
  shows "\<exists>q. quantizeNoteToKey midiNote keyRoot scaleType = Inr q"
proof (cases "map_of SCALE_DEGREES scaleType")
  case None
  with assms show ?thesis
    by (simp add: quantizeNoteToKey_def js_get_def)
next
  case (Some scaleDegrees)
  then have "scaleDegrees \<noteq> []"
    by (rule SCALE_DEGREES_nonempty)
  with Some show ?thesis
    by (cases scaleDegrees) (simp_all add: quantizeNoteToKey_def js_get_def Let_def)
qed

text \<open>
  A press in quantize mode followed at once by the release of the same key: the
  quantised note q exists (the scale setting being any string but an inherited property
  name), note-on sends q and maps the key to q, the release sends the note-off of q and
  removes the entry.
\<close>

lemma press_then_immediate_release:
  assumes "getModeForNote s n = ''quantize''"
    and "ss_scale (eff_quantize (getEffectiveSettings s n)) \<notin> set Object_prototype_keys"
    and "dom (activeNotes (midi s)) = {CHANNEL_CHORD, CHANNEL_PERFORMANCE, CHANNEL_BASS}"
  shows "\<exists>q s1 s2 noteMap1 noteMap2.
           quantizeNoteToKey n (ss_root (eff_quantize (getEffectiveSettings s n)))
             (ss_scale (eff_quantize (getEffectiveSettings s n))) = Inr q \<and>
           onMIDINoteOn upd s n vel = Inr s1 \<and>
           midi_output (midi s1) =
             map_option (\<lambda>sent. sent @ [note_on_message CHANNEL_CHORD q vel])
               (midi_output (midi s)) \<and>
           quantizedNoteMap s1 = Some noteMap1 \<and> noteMap1 n = Some q \<and>
           n \<in> set (passThroughNotes s1) \<and>
           onMIDINoteOff stop s1 n = Inr s2 \<and>
           midi_output (midi s2) =
             map_option (\<lambda>sent. sent @ [note_on_message CHANNEL_CHORD q vel,
                                         note_off_message CHANNEL_CHORD q])
               (midi_output (midi s)) \<and>
           quantizedNoteMap s2 = Some noteMap2 \<and> noteMap2 n = None \<and>
           n \<notin> set (passThroughNotes s2) \<and>
           dom (activeNotes (midi s2)) = {CHANNEL_CHORD, CHANNEL_PERFORMANCE, CHANNEL_BASS}"
proof -
  obtain q where q: "quantizeNoteToKey n (ss_root (eff_quantize (getEffectiveSettings s n)))
             (ss_scale (eff_quantize (getEffectiveSettings s n))) = Inr q"
    using quantizeNoteToKey_returns [OF assms(2)] by blast
  obtain active where reg: "activeNotes (midi s) CHANNEL_CHORD = Some active"
    using assms(3) by blast
  let ?map0 = "case quantizedNoteMap s of None \<Rightarrow> Map.empty | Some existing \<Rightarrow> existing"
  let ?m1 = "case midi_output (midi s) of
               None \<Rightarrow> midi s
             | Some sent \<Rightarrow>
                 (midi s)\<lparr>midi_output := Some (sent @ [note_on_message CHANNEL_CHORD q vel]),
                   activeNotes := (activeNotes (midi s))(CHANNEL_CHORD \<mapsto> set_add active q)\<rparr>"
  let ?s1 = "s\<lparr>passThroughNotes := set_add (passThroughNotes s) n,
               quantizedNoteMap := Some (?map0(n \<mapsto> q)),
               midi := ?m1\<rparr>"
  have m1: "noteOn (midi s) CHANNEL_CHORD q vel = Inr ?m1"
    using reg by (rule noteOn_with_registry)
  have on: "onMIDINoteOn upd s n vel = Inr ?s1"
    using onMIDINoteOn_quantize [OF assms(1) q] m1 by (simp add: with_midi_def)
  have dom1: "dom (activeNotes ?m1) = dom (activeNotes (midi s))"
    using m1 by (rule noteOn_keeps_registries)
  then obtain active1 where reg1: "activeNotes ?m1 CHANNEL_CHORD = Some active1"
    using assms(3) by blast
  have out1: "midi_output (midi ?s1) =
             map_option (\<lambda>sent. sent @ [note_on_message CHANNEL_CHORD q vel])
               (midi_output (midi s))"
    by (cases "midi_output (midi s)") simp_all
  have pt1: "n \<in> set (passThroughNotes ?s1)"
    by (simp add: set_add_def)
  let ?m2 = "case midi_output ?m1 of
               None \<Rightarrow> ?m1
             | Some sent \<Rightarrow>
                 ?m1\<lparr>midi_output := Some (sent @ [note_off_message CHANNEL_CHORD q]),
                   activeNotes := (activeNotes ?m1)(CHANNEL_CHORD \<mapsto> set_delete active1 q)\<rparr>"
  let ?s2 = "?s1\<lparr>passThroughNotes := set_delete (passThroughNotes ?s1) n,
                 quantizedNoteMap := Some ((?map0(n \<mapsto> q))(n := None)),
                 midi := ?m2\<rparr>"
  have m2: "noteOff ?m1 CHANNEL_CHORD q = Inr ?m2"
    using reg1 by (rule noteOff_with_registry)
  have "onMIDINoteOff stop ?s1 n =
           with_midi
             (?s1\<lparr>passThroughNotes := set_delete (passThroughNotes ?s1) n,
                quantizedNoteMap := Some ((?map0(n \<mapsto> q))(n := None))\<rparr>)
             (\<lambda>m. noteOff m CHANNEL_CHORD q)"
    using pt1 by (intro onMIDINoteOff_mapped) simp_all
  then have off: "onMIDINoteOff stop ?s1 n = Inr ?s2"
    using m2 by (simp add: with_midi_def)
  have "dom (activeNotes ?m2) = dom (activeNotes ?m1)"
    using m2 by (rule noteOff_keeps_registries)
  with dom1 assms(3)
  have dom2: "dom (activeNotes (midi ?s2)) = {CHANNEL_CHORD, CHANNEL_PERFORMANCE, CHANNEL_BASS}"
    by simp
  have out2: "midi_output (midi ?s2) =
             map_option (\<lambda>sent. sent @ [note_on_message CHANNEL_CHORD q vel,
                                         note_off_message CHANNEL_CHORD q])
               (midi_output (midi s))"
    by (cases "midi_output (midi s)") simp_all
  have pt2: "n \<notin> set (passThroughNotes ?s2)"
    by (simp add: set_delete_def)
  have "quantizedNoteMap ?s1 = Some (?map0(n \<mapsto> q))" "(?map0(n \<mapsto> q)) n = Some q"
    "quantizedNoteMap ?s2 = Some ((?map0(n \<mapsto> q))(n := None))"
    "((?map0(n \<mapsto> q))(n := None)) n = None"
    by simp_all
  with q on out1 pt1 off out2 pt2 dom2 show ?thesis
    by blast
qed

lemma quantized_61: "quantizeNoteToKey 61 0 ''major'' = Inr 60"
  "quantizeNoteToKey 61 1 ''major'' = Inr 61"
  by code_simp+

text \<open>
  C6: the release should stop the note that the press sent. It does when the release
  follows the press (the first run sends note-on 60 and note-off 60). The code misses the
  key that arrives again while it is held: the second press overwrites the map entry of
  the key, the release stops the note of the second press only, and the note of the first
  press, 60, is never released and stays in the registry of the chord channel.
\<close>

theorem repress_leaves_quantized_note_on:
  "observed repress_after_scale_change =
     Inr (Some [[144, 60, 100], [144, 61, 100], [128, 61, 0]], Some [60], [], None) \<and>
   map_sum id (\<lambda>s. midi_output (midi s)) press_and_release =
     Inr (Some [[144, 60, 100], [128, 60, 0]])"
proof -
  have stuck: "observed repress_after_scale_change =
     Inr (Some [[144, 60, 100], [144, 61, 100], [128, 61, 0]], Some [60], [], None)"
    by (simp add: observed_def repress_after_scale_change_def then_call_def onMIDINoteOn_def
        onMIDINoteOff_def getModeForNote_def getEffectiveSettings_def setQuantize_def
        quantize_session_def OrchardEngine_def default_scale_settings_def quantized_61
        with_midi_def noteOn_def noteOff_def selectOutput_def OrchardMIDI_def CHANNEL_CHORD_def
        set_add_def set_delete_def Let_def)
  have h1: "getModeForNote quantize_session 61 = ''quantize''"
    by (simp add: getModeForNote_def quantize_session_def OrchardEngine_def)
  have e: "eff_quantize (getEffectiveSettings quantize_session 61) = default_scale_settings"
    by (simp add: getEffectiveSettings_def quantize_session_def OrchardEngine_def)
  have h2: "ss_scale (eff_quantize (getEffectiveSettings quantize_session 61))
              \<notin> set Object_prototype_keys"
    unfolding e by (simp add: default_scale_settings_def Object_prototype_keys_def)
  have "dom (activeNotes (selectOutput OrchardMIDI (Some []))) = {0, 1, 2}"
    by (simp only: selectOutput_keeps_registries OrchardMIDI_registries)
  then have h3: "dom (activeNotes (midi quantize_session)) =
                   {CHANNEL_CHORD, CHANNEL_PERFORMANCE, CHANNEL_BASS}"
    by (simp add: quantize_session_def CHANNEL_CHORD_def CHANNEL_PERFORMANCE_def
        CHANNEL_BASS_def)
  have o: "midi_output (midi quantize_session) = Some []"
    by (simp add: quantize_session_def selectOutput_def)
  from press_then_immediate_release [OF h1 h2 h3, of no_chord_output 100 Inr]
  obtain q s1 s2 where
    "quantizeNoteToKey 61 (ss_root (eff_quantize (getEffectiveSettings quantize_session 61)))
       (ss_scale (eff_quantize (getEffectiveSettings quantize_session 61))) = Inr q"
    "onMIDINoteOn no_chord_output quantize_session 61 100 = Inr s1"
    "onMIDINoteOff Inr s1 61 = Inr s2"
    "midi_output (midi s2) =
       map_option (\<lambda>sent. sent @ [note_on_message CHANNEL_CHORD q 100,
                                   note_off_message CHANNEL_CHORD q])
         (midi_output (midi quantize_session))"
    by blast
  moreover from this(1) have "q = 60"
    unfolding e using quantized_61(1) by (simp add: default_scale_settings_def)
  ultimately have "map_sum id (\<lambda>s. midi_output (midi s)) press_and_release =
     Inr (Some [[144, 60, 100], [128, 60, 0]])"
    by (simp add: press_and_release_def then_call_def o note_on_message_def
        note_off_message_def CHANNEL_CHORD_def)
  with stuck show ?thesis
    by simp
qed

end
